theory Spec2Isabelle
  imports Complex_Main
begin

section \<open>Data model\<close>

text \<open>
  The interface \<open>Job\<close>, with its optional \<open>salaryRange\<close>. The fields \<open>id\<close> and \<open>type\<close>
  carry a prime, since the plain names are taken in HOL; \<open>type\<close> is a string here, and
  \<open>employment_kinds\<close> below lists the four values the interface allows.
\<close>

record job =
  id' :: string
  title :: string
  company :: string
  location :: string
  type' :: string
  description :: string
  skills :: "string list"
  salaryRange :: "string option"

record SearchFilters =
  query :: string
  location_filter :: string
  type_filter :: string
  salary :: string
  workLocation :: string
  industry :: string

datatype view = SearchView | SavedView

text \<open>The state \<open>scrapingStatus\<close>: completed source labels and the current one (or null).\<close>

record scraping =
  completed :: "string list"
  current :: "string option"

text \<open>
  The \<open>useState\<close> cells of the \<open>App\<close> component that the handlers below read or write.
  (\<open>selectedJob\<close> and \<open>isAddJobModalOpen\<close> only drive the two modals and are left out.)
\<close>

record app =
  jobs :: "job list"
  savedJobs :: "job list"
  isLoading :: bool
  error :: "string option"
  filters :: SearchFilters
  activeView :: view
  scrapingStatus :: scraping
  currentPage :: int

text \<open>A thrown value: an \<open>Error\<close> object with its message, or anything else.\<close>

datatype thrown = Error string | NonError

text \<open>A parsed JSON value, as \<open>JSON.parse\<close> returns it.\<close>

datatype json =
  JNull
  | JBool bool
  | JNum rat
  | JStr string
  | JArr "json list"
  | JObj "(string \<times> json) list"

section \<open>Language primitives\<close>

text \<open>
  \<open>Math.ceil(a / b)\<close> on integers with \<open>b > 0\<close>. The lengths involved are array lengths,
  far below \<open>2 ^ 53\<close>, where the floating-point quotient rounds to the same ceiling.
\<close>

definition ceil_quot :: "int \<Rightarrow> int \<Rightarrow> int" where
  "ceil_quot a b = - ((- a) div b)"

text \<open>
  \<open>Array.prototype.slice(start, end)\<close> on integer arguments: a negative index counts
  from the end, and both indices are clipped to the array.
\<close>

definition slice :: "'a list \<Rightarrow> int \<Rightarrow> int \<Rightarrow> 'a list" where
  "slice xs start fin =
     (let len = int (length xs);
          k = (if start < 0 then max (len + start) 0 else min start len);
          final = (if fin < 0 then max (len + fin) 0 else min fin len)
      in take (nat (final - k)) (drop (nat k) xs))"

text \<open>\<open>xs[i]\<close>: \<open>undefined\<close> (here \<open>None\<close>) out of range.\<close>

definition index :: "'a list \<Rightarrow> nat \<Rightarrow> 'a option" where
  "index xs n = (if n < length xs then Some (xs ! n) else None)"

text \<open>\<open>v || null\<close> on a string or \<open>undefined\<close>: the empty string is falsy too.\<close>

definition or_null :: "string option \<Rightarrow> string option" where
  "or_null v = (case v of None \<Rightarrow> None | Some s \<Rightarrow> if s = [] then None else Some s)"

section \<open>Saved jobs\<close>

text \<open>The updater that \<open>handleSaveJob\<close> passes to \<open>setSavedJobs\<close>.\<close>

definition saveUpdater :: "job \<Rightarrow> job list \<Rightarrow> job list" where
  "saveUpdater jobToSave prev =
     (case find (\<lambda>job. id' job = id' jobToSave) prev of
        Some _ \<Rightarrow> prev
      | None \<Rightarrow> prev @ [jobToSave])"

definition handleSaveJob :: "job \<Rightarrow> app \<Rightarrow> app" where
  "handleSaveJob jobToSave s = s\<lparr>savedJobs := saveUpdater jobToSave (savedJobs s)\<rparr>"

definition unsaveUpdater :: "string \<Rightarrow> job list \<Rightarrow> job list" where
  "unsaveUpdater jobId prev = filter (\<lambda>job. id' job \<noteq> jobId) prev"

definition handleUnsaveJob :: "string \<Rightarrow> app \<Rightarrow> app" where
  "handleUnsaveJob jobId s = s\<lparr>savedJobs := unsaveUpdater jobId (savedJobs s)\<rparr>"

definition isJobSaved :: "app \<Rightarrow> string \<Rightarrow> bool" where
  "isJobSaved s jobId = list_ex (\<lambda>job. id' job = jobId) (savedJobs s)"

text \<open>
  The list that remains when the entries with one identifier are taken out, written
  entry by entry; \<open>unsaveUpdater\<close> is compared with it.
\<close>

primrec without_id :: "string \<Rightarrow> job list \<Rightarrow> job list" where
  "without_id jobId [] = []"
| "without_id jobId (j # js) =
     (if id' j = jobId then without_id jobId js else j # without_id jobId js)"



section \<open>Pagination\<close>

definition JOBS_PER_PAGE :: int where
  "JOBS_PER_PAGE = 9"

definition jobsToDisplay :: "app \<Rightarrow> job list" where
  "jobsToDisplay s = (if activeView s = SearchView then jobs s else savedJobs s)"

definition totalPages :: "app \<Rightarrow> int" where
  "totalPages s = ceil_quot (int (length (jobsToDisplay s))) JOBS_PER_PAGE"

definition indexOfLastJob :: "app \<Rightarrow> int" where
  "indexOfLastJob s = currentPage s * JOBS_PER_PAGE"

definition indexOfFirstJob :: "app \<Rightarrow> int" where
  "indexOfFirstJob s = indexOfLastJob s - JOBS_PER_PAGE"

definition currentJobsOnPage :: "app \<Rightarrow> job list" where
  "currentJobsOnPage s = slice (jobsToDisplay s) (indexOfFirstJob s) (indexOfLastJob s)"

definition handlePageChange :: "int \<Rightarrow> app \<Rightarrow> app" where
  "handlePageChange page s = s\<lparr>currentPage := page\<rparr>"

definition handleViewChange :: "view \<Rightarrow> app \<Rightarrow> app" where
  "handleViewChange v s = s\<lparr>activeView := v, currentPage := 1\<rparr>"

text \<open>
  The \<open>Pagination\<close> component: the three kinds of button, and the page it hands to
  \<open>onPageChange\<close> when one is clicked (\<open>None\<close>: no call is made). The component renders
  nothing when \<open>totalPages \<le> 1\<close>, and a numbered button exists for \<open>1 .. totalPages\<close>.
\<close>

datatype control = Previous | Next | PageNumber int

definition pageNumbers :: "int \<Rightarrow> int list" where
  "pageNumbers n = [1 .. n]"

definition Pagination :: "int \<Rightarrow> int \<Rightarrow> control \<Rightarrow> int option" where
  "Pagination currentPage' totalPages' c =
     (if totalPages' \<le> 1 then None
      else (case c of
              Previous \<Rightarrow> if currentPage' > 1 then Some (currentPage' - 1) else None
            | Next \<Rightarrow> if currentPage' < totalPages' then Some (currentPage' + 1) else None
            | PageNumber n \<Rightarrow> if n \<in> set (pageNumbers totalPages') then Some n else None))"

section \<open>The service call\<close>

text \<open>
  \<open>findJobs\<close>. \<open>response\<close> is the outcome of \<open>ai.models.generateContent\<close>: it throws,
  or gives a response whose \<open>text\<close> is a string or undefined. The prompt built from the
  filters only goes into that call. \<open>JSON.parse(undefined)\<close> throws like any other
  non-JSON text. The parsed value is returned under a type assertion, as it is.
\<close>

definition findJobs_try :: "(string \<Rightarrow> json option) \<Rightarrow> thrown + string option \<Rightarrow> thrown + json" where
  "findJobs_try parse response =
     (case response of
        Inl e \<Rightarrow> Inl e
      | Inr jsonString \<Rightarrow>
          (case jsonString of
             None \<Rightarrow> Inl (Error ''SyntaxError'')
           | Some str \<Rightarrow>
               (case parse str of
                  None \<Rightarrow> Inl (Error ''SyntaxError'')
                | Some jobs' \<Rightarrow> Inr jobs')))"

definition findJobs :: "(string \<Rightarrow> json option) \<Rightarrow> thrown + string option \<Rightarrow> thrown + json" where
  "findJobs parse response =
     (case findJobs_try parse response of
        Inl _ \<Rightarrow> Inl (Error ''Failed to fetch job listings from Gemini API.'')
      | Inr v \<Rightarrow> Inr v)"

text \<open>
  The shape of a job list that the spec asks \<open>findJobs\<close> to check: an array of objects
  with the required fields of \<open>jobSchema\<close> at their types, an optional or null
  \<open>salaryRange\<close>, and an employment kind among those of the interface \<open>Job\<close>.
\<close>

definition field :: "(string \<times> json) list \<Rightarrow> string \<Rightarrow> json option" where
  "field obj k = map_of obj k"

definition is_string :: "json option \<Rightarrow> bool" where
  "is_string v = (case v of Some (JStr _) \<Rightarrow> True | _ \<Rightarrow> False)"

definition is_string_array :: "json option \<Rightarrow> bool" where
  "is_string_array v =
     (case v of Some (JArr xs) \<Rightarrow> list_all (\<lambda>x. is_string (Some x)) xs | _ \<Rightarrow> False)"

definition employment_kinds :: "string list" where
  "employment_kinds = [''Full-time'', ''Part-time'', ''Contract'', ''Internship'']"

definition conforms_job :: "json \<Rightarrow> bool" where
  "conforms_job v =
     (case v of
        JObj obj \<Rightarrow>
          is_string (field obj ''id'') \<and> is_string (field obj ''title'')
          \<and> is_string (field obj ''company'') \<and> is_string (field obj ''location'')
          \<and> is_string (field obj ''description'')
          \<and> is_string_array (field obj ''skills'')
          \<and> (case field obj ''type'' of
                Some (JStr t) \<Rightarrow> t \<in> set employment_kinds
              | _ \<Rightarrow> False)
          \<and> (case field obj ''salaryRange'' of
                None \<Rightarrow> True
              | Some JNull \<Rightarrow> True
              | Some (JStr _) \<Rightarrow> True
              | _ \<Rightarrow> False)
      | _ \<Rightarrow> False)"

definition conforms_job_list :: "json \<Rightarrow> bool" where
  "conforms_job_list v = (case v of JArr xs \<Rightarrow> list_all conforms_job xs | _ \<Rightarrow> False)"

text \<open>A stand-in for \<open>JSON.parse\<close> that knows one text: the empty object.\<close>

definition parse_empty_object :: "string \<Rightarrow> json option" where
  "parse_empty_object str = (if str = ''{}'' then Some (JObj []) else None)"

section \<open>The search session\<close>

definition JOB_SOURCES :: "string list" where
  "JOB_SOURCES = [''LinkedIn'', ''Indeed'', ''Glassdoor'', ''Wellfound'', ''Google Careers'']"

text \<open>
  One call of \<open>fetchJobs\<close> is a coroutine. It runs from one \<open>await\<close> to the next without
  interruption, so it is modelled by its suspension points: waiting for \<open>findJobs\<close>,
  waiting for the 600 ms timer of loop iteration \<open>i\<close> (with the locals of the loop), or
  returned. The state setters take effect in call order, each on the latest state.
\<close>

datatype fetch_task =
  AwaitFindJobs
  | AwaitTimeout "job list" int int nat
  | Returned

text \<open>Up to the first \<open>await\<close>: the four resets.\<close>

definition fetchJobs_begin :: "app \<Rightarrow> app" where
  "fetchJobs_begin s =
     s\<lparr>isLoading := True,
       error := None,
       jobs := [],
       scrapingStatus := \<lparr>completed = [], current = index JOB_SOURCES 0\<rparr>\<rparr>"

text \<open>
  The head of the \<open>for\<close> loop: test \<open>i\<close>, mark the source as current and suspend on the
  timer; past the last source, leave through \<open>finally\<close>.
\<close>

definition loop_head :: "job list \<Rightarrow> int \<Rightarrow> int \<Rightarrow> nat \<Rightarrow> app \<Rightarrow> fetch_task \<times> app" where
  "loop_head allFetchedJobs jobsAdded jobsPerSource i s =
     (if i < length JOB_SOURCES
      then (AwaitTimeout allFetchedJobs jobsAdded jobsPerSource i,
            s\<lparr>scrapingStatus := (scrapingStatus s)\<lparr>current := Some (JOB_SOURCES ! i)\<rparr>\<rparr>)
      else (Returned, s\<lparr>isLoading := False\<rparr>))"

text \<open>\<open>findJobs\<close> settles: the \<open>catch\<close> branch, the empty case, or the loop begins.\<close>

definition fetchJobs_settled :: "thrown + job list \<Rightarrow> app \<Rightarrow> fetch_task \<times> app" where
  "fetchJobs_settled outcome s =
     (case outcome of
        Inl err \<Rightarrow>
          (Returned,
           s\<lparr>error := Some (case err of Error message \<Rightarrow> message
                                       | NonError \<Rightarrow> ''An unexpected error occurred.''),
             jobs := [],
             isLoading := False\<rparr>)
      | Inr allFetchedJobs \<Rightarrow>
          if length allFetchedJobs = 0
          then (Returned,
                s\<lparr>scrapingStatus := \<lparr>completed = JOB_SOURCES, current = None\<rparr>,
                  isLoading := False\<rparr>)
          else loop_head allFetchedJobs 0
                 (ceil_quot (int (length allFetchedJobs)) (int (length JOB_SOURCES))) 0 s)"

text \<open>The batch that iteration \<open>i\<close> appends.\<close>

definition jobsToAdd :: "job list \<Rightarrow> int \<Rightarrow> int \<Rightarrow> job list" where
  "jobsToAdd allFetchedJobs jobsAdded jobsPerSource =
     slice allFetchedJobs jobsAdded (jobsAdded + jobsPerSource)"

text \<open>The timer of iteration \<open>i\<close> fires: append the batch, complete the source, loop.\<close>

definition fetchJobs_timeout :: "job list \<Rightarrow> int \<Rightarrow> int \<Rightarrow> nat \<Rightarrow> app \<Rightarrow> fetch_task \<times> app" where
  "fetchJobs_timeout allFetchedJobs jobsAdded jobsPerSource i s =
     (let source = JOB_SOURCES ! i;
          s1 = s\<lparr>jobs := jobs s @ jobsToAdd allFetchedJobs jobsAdded jobsPerSource\<rparr>;
          s2 = s1\<lparr>scrapingStatus :=
                    \<lparr>completed = completed (scrapingStatus s1) @ [source],
                     current = or_null (index JOB_SOURCES (i + 1))\<rparr>\<rparr>
      in loop_head allFetchedJobs (jobsAdded + jobsPerSource) jobsPerSource (i + 1) s2)"

text \<open>
  The event loop. A configuration holds the component state, one entry per call of
  \<open>fetchJobs\<close> made so far, and the batches handed to \<open>setJobs\<close> in the order they were
  appended, each with the number of the call it came from (a record of what happened,
  not state of the program). An event is the mount effect, a search submitted through
  \<open>handleSearch\<close>, the settling of call \<open>k\<close>'s \<open>findJobs\<close> promise with its outcome, or
  the firing of call \<open>k\<close>'s pending timer. An event for a call that is not waiting
  for it changes nothing.
\<close>

record config =
  state :: app
  tasks :: "fetch_task list"
  emitted :: "(nat \<times> job list) list"

datatype event =
  Mount
  | Search SearchFilters
  | Settled nat "thrown + job list"
  | Timeout nat

definition fetchJobs :: "config \<Rightarrow> config" where
  "fetchJobs c = c\<lparr>state := fetchJobs_begin (state c), tasks := tasks c @ [AwaitFindJobs]\<rparr>"

definition handleSearch :: "SearchFilters \<Rightarrow> config \<Rightarrow> config" where
  "handleSearch newFilters c =
     fetchJobs (c\<lparr>state := (state c)\<lparr>filters := newFilters,
                                     activeView := SearchView,
                                     currentPage := 1\<rparr>\<rparr>)"

definition resume :: "nat \<Rightarrow> fetch_task \<times> app \<Rightarrow> (nat \<times> job list) list \<Rightarrow> config \<Rightarrow> config" where
  "resume k r new c =
     c\<lparr>state := snd r, tasks := (tasks c)[k := fst r], emitted := emitted c @ new\<rparr>"

fun step :: "config \<Rightarrow> event \<Rightarrow> config" where
  "step c Mount = fetchJobs c"
| "step c (Search newFilters) = handleSearch newFilters c"
| "step c (Settled k outcome) =
     (case index (tasks c) k of
        Some AwaitFindJobs \<Rightarrow> resume k (fetchJobs_settled outcome (state c)) [] c
      | _ \<Rightarrow> c)"
| "step c (Timeout k) =
     (case index (tasks c) k of
        Some (AwaitTimeout allFetchedJobs jobsAdded jobsPerSource i) \<Rightarrow>
          resume k (fetchJobs_timeout allFetchedJobs jobsAdded jobsPerSource i (state c))
            [(k, jobsToAdd allFetchedJobs jobsAdded jobsPerSource)] c
      | _ \<Rightarrow> c)"

definition run :: "config \<Rightarrow> event list \<Rightarrow> config" where
  "run c es = foldl step c es"

text \<open>The component as first rendered, before the mount effect has run.\<close>

definition initial_filters :: SearchFilters where
  "initial_filters =
     \<lparr>query = ''AI Engineer'', location_filter = ''Remote'', type_filter = ''Full-time'',
      salary = [], workLocation = [], industry = []\<rparr>"

definition initial_app :: "job list \<Rightarrow> app" where
  "initial_app saved =
     \<lparr>jobs = [], savedJobs = saved, isLoading = True, error = None,
      filters = initial_filters, activeView = SearchView,
      scrapingStatus = \<lparr>completed = [], current = None\<rparr>, currentPage = 1\<rparr>"

definition initial :: "job list \<Rightarrow> config" where
  "initial saved = \<lparr>state = initial_app saved, tasks = [], emitted = []\<rparr>"

text \<open>The events of one search that runs alone to its end: settle, then every timer.\<close>

definition session :: "nat \<Rightarrow> thrown + job list \<Rightarrow> event list" where
  "session k outcome = Settled k outcome # replicate (length JOB_SOURCES) (Timeout k)"

section \<open>The start of the component\<close>










section \<open>Batches and progress\<close>

text \<open>
  The batches as the spec words them: the size is the ceiling of the length over the
  number of sources, and batch \<open>i\<close> is the run of that size from position \<open>i\<close> times
  the size, cut at the end of the list.
\<close>

definition batch_size :: "job list \<Rightarrow> nat" where
  "batch_size js = (length js + (length JOB_SOURCES - 1)) div length JOB_SOURCES"

definition batch :: "job list \<Rightarrow> nat \<Rightarrow> job list" where
  "batch js n = take (batch_size js) (drop (n * batch_size js) js)"

text \<open>
  How far a call has come: the number of loop iterations it has finished. A call that
  waits on a timer for the list \<open>js\<close> is \<open>on_track\<close> when its locals are what the
  loop gives them after that many iterations.
\<close>

fun progress :: "fetch_task \<Rightarrow> nat" where
  "progress AwaitFindJobs = 0"
| "progress (AwaitTimeout allFetchedJobs jobsAdded jobsPerSource i) = i"
| "progress Returned = length JOB_SOURCES"

fun on_track :: "job list \<Rightarrow> fetch_task \<Rightarrow> bool" where
  "on_track js AwaitFindJobs = True"
| "on_track js (AwaitTimeout allFetchedJobs jobsAdded jobsPerSource i) =
     (allFetchedJobs = js \<and> js \<noteq> [] \<and> jobsPerSource = int (batch_size js)
      \<and> jobsAdded = int (i * batch_size js) \<and> i < length JOB_SOURCES)"
| "on_track js Returned = True"

text \<open>
  Two calls, for the lists \<open>js1\<close> and \<open>js2\<close>, the second made when the first had
  finished \<open>m\<close> iterations: the results hold, in some interleaving that keeps the
  order of each, what the first has appended since and what the second has appended.
\<close>

definition interleaved :: "job list \<Rightarrow> job list \<Rightarrow> nat \<Rightarrow> config \<Rightarrow> bool" where
  "interleaved js1 js2 m c =
     (case tasks c of
        [t1, t2] \<Rightarrow>
          on_track js1 t1 \<and> on_track js2 t2 \<and> m \<le> progress t1
          \<and> jobs (state c)
              \<in> shuffles
                  (take ((progress t1 - m) * batch_size js1) (drop (m * batch_size js1) js1))
                  (take (progress t2 * batch_size js2) js2)
      | _ \<Rightarrow> False)"

section \<open>Sample data\<close>

text \<open>Jobs to run the definitions on: the \<open>k\<close>-th has an identifier of \<open>k + 1\<close> letters.\<close>

definition sample_job :: "string \<Rightarrow> job" where
  "sample_job i =
     \<lparr>id' = i, title = ''ML Engineer'', company = ''Acme'', location = ''Remote'',
      type' = ''Full-time'', description = ''Build models'', skills = [''Python''],
      salaryRange = None\<rparr>"

definition sample_jobs :: "nat \<Rightarrow> job list" where
  "sample_jobs n = map (\<lambda>k. sample_job (replicate (Suc k) (CHR ''a''))) [0..<n]"






section \<open>Properties of the primitives\<close>

lemma ceil_quot_ceiling: "ceil_quot a b = \<lceil>real_of_int a / real_of_int b\<rceil>"
  by (simp add: ceil_quot_def ceiling_divide_eq_div)


lemma find_list_ex: "(find P xs = None) = (\<not> list_ex P xs)"
  by (auto simp add: find_None_iff list_ex_iff)

lemma saveUpdater_member: "list_ex (\<lambda>job. id' job = id' j) xs \<Longrightarrow> saveUpdater j xs = xs"
  by (cases "find (\<lambda>job. id' job = id' j) xs") (simp_all add: saveUpdater_def find_list_ex)

lemma saveUpdater_fresh: "\<not> list_ex (\<lambda>job. id' job = id' j) xs \<Longrightarrow> saveUpdater j xs = xs @ [j]"
  by (simp add: saveUpdater_def find_list_ex[symmetric])

lemma saveUpdater_saved: "list_ex (\<lambda>job. id' job = id' j) (saveUpdater j xs)"
  by (cases "list_ex (\<lambda>job. id' job = id' j) xs") (simp_all add: saveUpdater_member saveUpdater_fresh)

lemma unsaveUpdater_without_id: "unsaveUpdater i xs = without_id i xs"
  by (induction xs) (simp_all add: unsaveUpdater_def)

lemma unsaveUpdater_absent: "\<not> list_ex (\<lambda>job. id' job = i) xs \<Longrightarrow> unsaveUpdater i xs = xs"
  by (induction xs) (simp_all add: unsaveUpdater_def)

lemma slice_nonneg:
  assumes "0 \<le> a" "a \<le> b"
  shows "slice xs a b = take (nat (b - a)) (drop (nat a) xs)"
proof (cases "a \<le> int (length xs)")
  case True
  show ?thesis
  proof (cases "b \<le> int (length xs)")
    case True
    with assms \<open>a \<le> int (length xs)\<close> show ?thesis
      by (simp add: slice_def Let_def min_def)
  next
    case False
    with assms True show ?thesis
      by (simp add: slice_def Let_def min_def)
  qed
next
  case False
  with assms show ?thesis
    by (simp add: slice_def Let_def min_def)
qed

lemma ceil_quot_upper: "0 < b \<Longrightarrow> b * ceil_quot a b < a + b"
proof -
  assume b: "0 < b"
  have "(- a) mod b < b" using b by simp
  moreover have "b * ((- a) div b) + (- a) mod b = - a" by simp
  ultimately have "- a - b < b * ((- a) div b)" by linarith
  then show ?thesis by (simp add: ceil_quot_def) 
qed

lemma length_JOB_SOURCES: "length JOB_SOURCES = 5"
  by (simp add: JOB_SOURCES_def)

lemma jobsPerSource_batch_size:
  "ceil_quot (int (length js)) (int (length JOB_SOURCES)) = int (batch_size js)"
proof -
  have "- ((- int (length js)) div 5) = (int (length js) + 4) div 5"
    by presburger
  then show ?thesis
    by (simp add: ceil_quot_def batch_size_def length_JOB_SOURCES zdiv_int)
qed

lemma jobsPerSource_batch_size_5: "ceil_quot (int (length js)) 5 = int (batch_size js)"
  using jobsPerSource_batch_size [of js] by (simp add: length_JOB_SOURCES)

lemma batch_size_covers: "length js \<le> 5 * batch_size js"
  by (simp add: batch_size_def length_JOB_SOURCES)

lemma jobsToAdd_batch:
  "jobsToAdd js (int (n * batch_size js)) (int (batch_size js)) = batch js n"
  using slice_nonneg [of "int (n * batch_size js)" "int (n * batch_size js) + int (batch_size js)" js]
  by (simp add: jobsToAdd_def batch_def del: of_nat_mult)

lemma jobsToAdd_batch_int:
  "jobsToAdd js (int n * int (batch_size js)) (int (batch_size js)) = batch js n"
  using jobsToAdd_batch [of js n] by simp

lemma take_next_batch: "take (Suc n * batch_size js) js = take (n * batch_size js) js @ batch js n"
proof -
  have "Suc n * batch_size js = n * batch_size js + batch_size js" by simp
  then show ?thesis by (simp only: batch_def take_add)
qed

lemma concat_batches: "concat (map (batch js) [0..<n]) = take (n * batch_size js) js"
  by (induction n) (simp_all add: take_next_batch del: mult_Suc)

lemma index_Some: "(index xs n = Some x) = (n < length xs \<and> xs ! n = x)"
  by (auto simp add: index_def)

lemma index_update: "n < length xs \<Longrightarrow> index (xs[n := x]) n = Some x"
  by (simp add: index_def)

lemma run_Cons: "run c (e # es) = run (step c e) es"
  by (simp add: run_def)

lemma run_snoc: "run c (es @ [e]) = step (run c es) e"
  by (simp add: run_def)

lemma run_Nil: "run c [] = c"
  by (simp add: run_def)

lemma scraping_current_update:
  "st\<lparr>current := x\<rparr> = \<lparr>completed = completed st, current = x\<rparr>"
  by (cases st) simp

lemma step_settled_fields:
  assumes "index (tasks c) k = Some AwaitFindJobs" and "js \<noteq> []"
  shows "tasks (step c (Settled k (Inr js)))
           = (tasks c)[k := AwaitTimeout js 0 (int (batch_size js)) 0]"
    and "jobs (state (step c (Settled k (Inr js)))) = jobs (state c)"
    and "scrapingStatus (state (step c (Settled k (Inr js))))
           = \<lparr>completed = completed (scrapingStatus (state c)), current = index JOB_SOURCES 0\<rparr>"
    and "emitted (step c (Settled k (Inr js))) = emitted c"
    and "isLoading (state (step c (Settled k (Inr js)))) = isLoading (state c)"
  using assms
  by (simp_all add: resume_def fetchJobs_settled_def loop_head_def jobsPerSource_batch_size_5
      length_JOB_SOURCES index_def scraping_current_update)

lemma step_timeout_fields:
  assumes "index (tasks c) k
             = Some (AwaitTimeout js (int (n * batch_size js)) (int (batch_size js)) n)"
    and "n < length JOB_SOURCES"
  shows "tasks (step c (Timeout k))
           = (tasks c)[k := if Suc n < length JOB_SOURCES
                            then AwaitTimeout js (int (Suc n * batch_size js)) (int (batch_size js)) (Suc n)
                            else Returned]"
    and "jobs (state (step c (Timeout k))) = jobs (state c) @ batch js n"
    and "scrapingStatus (state (step c (Timeout k)))
           = \<lparr>completed = completed (scrapingStatus (state c)) @ [JOB_SOURCES ! n],
              current = index JOB_SOURCES (Suc n)\<rparr>"
    and "emitted (step c (Timeout k)) = emitted c @ [(k, batch js n)]"
    and "isLoading (state (step c (Timeout k)))
           = (if Suc n < length JOB_SOURCES then isLoading (state c) else False)"
  using assms
  by (simp_all add: resume_def fetchJobs_timeout_def loop_head_def Let_def jobsToAdd_batch_int
      length_JOB_SOURCES index_def or_null_def scraping_current_update algebra_simps)

lemma reveal_prefix:
  assumes "index (tasks c) k = Some AwaitFindJobs" and "js \<noteq> []"
  shows "n \<le> length JOB_SOURCES \<Longrightarrow>
     tasks (run c (Settled k (Inr js) # replicate n (Timeout k)))
       = (tasks c)[k := if n < length JOB_SOURCES
                        then AwaitTimeout js (int (n * batch_size js)) (int (batch_size js)) n
                        else Returned]
   \<and> jobs (state (run c (Settled k (Inr js) # replicate n (Timeout k))))
       = jobs (state c) @ take (n * batch_size js) js
   \<and> scrapingStatus (state (run c (Settled k (Inr js) # replicate n (Timeout k))))
       = \<lparr>completed = completed (scrapingStatus (state c)) @ take n JOB_SOURCES,
          current = index JOB_SOURCES n\<rparr>
   \<and> emitted (run c (Settled k (Inr js) # replicate n (Timeout k)))
       = emitted c @ map (\<lambda>i. (k, batch js i)) [0..<n]
   \<and> isLoading (state (run c (Settled k (Inr js) # replicate n (Timeout k))))
       = (if n < length JOB_SOURCES then isLoading (state c) else False)"
proof (induction n)
  case 0
  show ?case
    using step_settled_fields [OF assms]
    by (simp add: run_Cons run_Nil length_JOB_SOURCES)
next
  case (Suc n)
  let ?c = "run c (Settled k (Inr js) # replicate n (Timeout k))"
  from Suc.prems have n: "n < length JOB_SOURCES" by simp
  from assms(1) have k: "k < length (tasks c)" by (simp add: index_Some)
  have ih: "tasks ?c = (tasks c)[k := AwaitTimeout js (int (n * batch_size js)) (int (batch_size js)) n]"
    "jobs (state ?c) = jobs (state c) @ take (n * batch_size js) js"
    "scrapingStatus (state ?c)
       = \<lparr>completed = completed (scrapingStatus (state c)) @ take n JOB_SOURCES,
          current = index JOB_SOURCES n\<rparr>"
    "emitted ?c = emitted c @ map (\<lambda>i. (k, batch js i)) [0..<n]"
    "isLoading (state ?c) = isLoading (state c)"
    using Suc.IH n by simp_all
  have t: "index (tasks ?c) k
             = Some (AwaitTimeout js (int (n * batch_size js)) (int (batch_size js)) n)"
    using k by (simp add: ih(1) index_update)
  have r: "run c (Settled k (Inr js) # replicate (Suc n) (Timeout k)) = step ?c (Timeout k)"
    using run_snoc [of c "Settled k (Inr js) # replicate n (Timeout k)" "Timeout k"]
    by (simp add: replicate_append_same)
  show ?case
    unfolding r
    using step_timeout_fields [OF t n] n
    by (simp add: ih take_next_batch take_Suc_conv_app_nth del: mult_Suc)
qed

lemma fetchJobs_fields:
  "tasks (fetchJobs c) = tasks c @ [AwaitFindJobs]"
  "index (tasks (fetchJobs c)) (length (tasks c)) = Some AwaitFindJobs"
  "jobs (state (fetchJobs c)) = []"
  "scrapingStatus (state (fetchJobs c)) = \<lparr>completed = [], current = Some ''LinkedIn''\<rparr>"
  "emitted (fetchJobs c) = emitted c"
  "isLoading (state (fetchJobs c)) = True"
  "error (state (fetchJobs c)) = None"
  by (simp_all add: fetchJobs_def fetchJobs_begin_def index_def JOB_SOURCES_def)

lemma batch_size_ceiling: "int (batch_size js) = \<lceil>real (length js) / 5\<rceil>"
  using jobsPerSource_batch_size_5 [of js] ceil_quot_ceiling [of "int (length js)" 5]
  by simp

lemma shuffles_append_left: "zs \<in> shuffles xs ys \<Longrightarrow> zs @ ws \<in> shuffles (xs @ ws) ys"
proof (induction xs ys arbitrary: zs rule: shuffles.induct)
  case (1 ys)
  then have "zs = ys" by simp
  moreover have "ys @ ws \<in> shuffles ws ys"
    by (induction ys) (simp_all add: Cons_in_shuffles_rightI)
  ultimately show ?case by simp
next
  case (2 xs)
  then show ?case by simp
next
  case (3 x xs y ys)
  then show ?case
    by (auto simp add: Cons_in_shuffles_leftI Cons_in_shuffles_rightI)
qed

lemma shuffles_append_right: "zs \<in> shuffles xs ys \<Longrightarrow> zs @ ws \<in> shuffles xs (ys @ ws)"
  using shuffles_append_left [of zs ys xs ws] by (simp add: shuffles_commutes)

lemma batch_size_Nil: "batch_size [] = 0"
  by (simp add: batch_size_def length_JOB_SOURCES)

lemma step_timeout_idle:
  "(\<And>a b p i. index (tasks c) k \<noteq> Some (AwaitTimeout a b p i)) \<Longrightarrow> step c (Timeout k) = c"
  by (cases "index (tasks c) k"; simp split: fetch_task.splits)

lemma step_settled_idle:
  "index (tasks c) k \<noteq> Some AwaitFindJobs \<Longrightarrow> step c (Settled k outcome) = c"
  by (cases "index (tasks c) k"; simp split: fetch_task.splits)

lemma step_timeout_on_track:
  assumes "index (tasks c) k = Some (AwaitTimeout a b p i)"
    and "on_track js (AwaitTimeout a b p i)"
  shows "\<exists>t. tasks (step c (Timeout k)) = (tasks c)[k := t] \<and> on_track js t
           \<and> progress t = Suc i
           \<and> jobs (state (step c (Timeout k))) = jobs (state c) @ batch js i"
proof -
  from assms(2) have f: "a = js" "js \<noteq> []" "p = int (batch_size js)"
    "b = int (i * batch_size js)" "i < length JOB_SOURCES"
    by simp_all
  from assms(1) have t: "index (tasks c) k
      = Some (AwaitTimeout js (int (i * batch_size js)) (int (batch_size js)) i)"
    by (simp add: f)
  show ?thesis
    using step_timeout_fields(1,2) [OF t f(5)] f(2,5)
    by (auto simp add: length_JOB_SOURCES)
qed

lemma step_settled_on_track:
  assumes "index (tasks c) k = Some AwaitFindJobs"
  shows "\<exists>t. tasks (step c (Settled k (Inr js))) = (tasks c)[k := t] \<and> on_track js t
           \<and> take (progress t * batch_size js) js = []
           \<and> jobs (state (step c (Settled k (Inr js)))) = jobs (state c)"
proof (cases "js = []")
  case True
  with assms show ?thesis
    by (intro exI [of _ Returned]) (simp add: resume_def fetchJobs_settled_def batch_size_Nil)
next
  case False
  show ?thesis
    using step_settled_fields(1,2) [OF assms False] False
    by (intro exI [of _ "AwaitTimeout js 0 (int (batch_size js)) 0"])
      (simp add: length_JOB_SOURCES del: step.simps)
qed

lemma interleaved_step:
  assumes inv: "interleaved js1 js2 m c"
    and ev: "(\<exists>k. e = Timeout k) \<or> e = Settled 0 (Inr js1) \<or> e = Settled 1 (Inr js2)"
  shows "interleaved js1 js2 m (step c e)"
proof -
  from inv obtain t1 t2 where ts: "tasks c = [t1, t2]"
    by (auto simp add: interleaved_def split: list.splits)
  with inv have i: "on_track js1 t1" "on_track js2 t2" "m \<le> progress t1"
    "jobs (state c) \<in> shuffles
        (take ((progress t1 - m) * batch_size js1) (drop (m * batch_size js1) js1))
        (take (progress t2 * batch_size js2) js2)"
    by (simp_all add: interleaved_def)
  have ix: "index (tasks c) 0 = Some t1" "index (tasks c) (Suc 0) = Some t2"
    "\<And>k. 2 \<le> k \<Longrightarrow> index (tasks c) k = None"
    by (simp_all add: ts index_def)
  from ev consider (timeout) k where "e = Timeout k"
    | (settled1) "e = Settled 0 (Inr js1)" | (settled2) "e = Settled 1 (Inr js2)"
    by blast
  then show ?thesis
  proof cases
    case (timeout k)
    consider (first) a b p n where "k = 0" "t1 = AwaitTimeout a b p n"
      | (second) a b p n where "k = Suc 0" "t2 = AwaitTimeout a b p n"
      | (idle) "\<And>a b p n. index (tasks c) k \<noteq> Some (AwaitTimeout a b p n)"
    proof (cases "k = 0")
      case True
      then show ?thesis using that(1,3) ix(1) by (cases t1) auto
    next
      case False
      show ?thesis
      proof (cases "k = Suc 0")
        case True
        then show ?thesis using that(2,3) ix(2) by (cases t2) auto
      next
        case False
        with \<open>k \<noteq> 0\<close> have "2 \<le> k" by simp
        then show ?thesis using that(3) ix(3) by simp
      qed
    qed
    then show ?thesis
    proof cases
      case first
      from step_timeout_on_track [of c 0 a b p n js1] ix(1) i(1) first
      obtain t where t: "tasks (step c (Timeout 0)) = (tasks c)[0 := t]" "on_track js1 t"
        "progress t = Suc n"
        "jobs (state (step c (Timeout 0))) = jobs (state c) @ batch js1 n"
        by auto
      from i(3) first have mn: "m \<le> n" by simp
      have "take ((Suc n - m) * batch_size js1) (drop (m * batch_size js1) js1)
          = take ((n - m) * batch_size js1) (drop (m * batch_size js1) js1) @ batch js1 n"
      proof -
        have "(Suc n - m) * batch_size js1 = (n - m) * batch_size js1 + batch_size js1"
          using mn by (simp add: Suc_diff_le)
        moreover have "(n - m) * batch_size js1 + m * batch_size js1 = n * batch_size js1"
          using mn by (simp add: add_mult_distrib [symmetric])
        ultimately show ?thesis
          by (simp only: take_add drop_drop batch_def)
      qed
      with i(4) first have "jobs (state c) @ batch js1 n
          \<in> shuffles (take ((Suc n - m) * batch_size js1) (drop (m * batch_size js1) js1))
              (take (progress t2 * batch_size js2) js2)"
        by (simp add: shuffles_append_left)
      with t i(2) mn show ?thesis
        by (simp add: interleaved_def ts timeout first(1) del: step.simps)
    next
      case second
      from step_timeout_on_track [of c "Suc 0" a b p n js2] ix(2) i(2) second
      obtain t where t: "tasks (step c (Timeout (Suc 0))) = (tasks c)[Suc 0 := t]"
        "on_track js2 t" "progress t = Suc n"
        "jobs (state (step c (Timeout (Suc 0)))) = jobs (state c) @ batch js2 n"
        by auto
      from i(4) second have "jobs (state c) @ batch js2 n
          \<in> shuffles (take ((progress t1 - m) * batch_size js1) (drop (m * batch_size js1) js1))
              (take (Suc n * batch_size js2) js2)"
        by (simp add: shuffles_append_right take_next_batch del: mult_Suc)
      with t i(1,3) show ?thesis
        by (simp add: interleaved_def ts timeout second(1) del: mult_Suc step.simps)
    next
      case idle
      then have "step c e = c" unfolding timeout by (rule step_timeout_idle)
      with inv show ?thesis by simp
    qed
  next
    case settled1
    show ?thesis
    proof (cases "t1 = AwaitFindJobs")
      case True
      from step_settled_on_track [of c 0 js1] ix(1) True
      obtain t where t: "tasks (step c (Settled 0 (Inr js1))) = (tasks c)[0 := t]"
        "on_track js1 t" "take (progress t * batch_size js1) js1 = []"
        "jobs (state (step c (Settled 0 (Inr js1)))) = jobs (state c)"
        by auto
      from i(3) True have m: "m = 0" by simp
      from t(1,2,4) i(2,4) True show ?thesis
        by (simp add: interleaved_def ts settled1 m t(3) del: step.simps)
    next
      case False
      with ix(1) have "step c e = c"
        unfolding settled1 by (intro step_settled_idle) simp
      with inv show ?thesis by simp
    qed
  next
    case settled2
    show ?thesis
    proof (cases "t2 = AwaitFindJobs")
      case True
      from step_settled_on_track [of c "Suc 0" js2] ix(2) True
      obtain t where t: "tasks (step c (Settled (Suc 0) (Inr js2))) = (tasks c)[Suc 0 := t]"
        "on_track js2 t" "take (progress t * batch_size js2) js2 = []"
        "jobs (state (step c (Settled (Suc 0) (Inr js2)))) = jobs (state c)"
        by auto
      from t(1,2,4) i(1,3,4) True show ?thesis
        by (simp add: interleaved_def ts settled2 t(3) del: step.simps)
    next
      case False
      with ix(2) have "step c e = c"
        unfolding settled2 by (intro step_settled_idle) simp
      with inv show ?thesis by simp
    qed
  qed
qed

lemma interleaved_run:
  assumes "\<forall>e \<in> set es. (\<exists>k. e = Timeout k) \<or> e = Settled 0 (Inr js1) \<or> e = Settled 1 (Inr js2)"
  shows "interleaved js1 js2 m c \<Longrightarrow> interleaved js1 js2 m (run c es)"
  using assms
proof (induction es arbitrary: c)
  case Nil
  then show ?case by (simp add: run_Nil)
next
  case (Cons e es)
  then show ?case by (simp add: run_Cons interleaved_step)
qed

lemma run_idle_timeouts:
  "index (tasks d) k = Some Returned \<Longrightarrow> run d (replicate n (Timeout k)) = d"
  by (induction n) (simp_all add: run_Nil run_Cons)

lemma first_phase:
  "\<exists>t. tasks (run (initial saved) (Mount # take n (session 0 (Inr js)))) = [t]
        \<and> on_track js t \<and> min (n - 1) 5 \<le> progress t
        \<and> take ((progress t - min (n - 1) 5) * batch_size js)
             (drop (min (n - 1) 5 * batch_size js) js) = []"
proof (cases n)
  case 0
  then show ?thesis
    by (intro exI [of _ AwaitFindJobs])
      (simp add: run_Cons run_Nil fetchJobs_def initial_def)
next
  case (Suc n')
  let ?m = "min n' 5"
  let ?c = "fetchJobs (initial saved)"
  have ev: "Mount # take n (session 0 (Inr js))
      = Mount # Settled 0 (Inr js) # replicate ?m (Timeout 0)"
    by (simp add: Suc session_def length_JOB_SOURCES)
  have r: "run (initial saved) (Mount # take n (session 0 (Inr js)))
      = run ?c (Settled 0 (Inr js) # replicate ?m (Timeout 0))"
    unfolding ev by (simp add: run_Cons)
  have t0: "tasks ?c = [AwaitFindJobs]" "index (tasks ?c) 0 = Some AwaitFindJobs"
    by (simp_all add: fetchJobs_def initial_def index_def)
  show ?thesis
  proof (cases "js = []")
    case True
    have "index (tasks (step ?c (Settled 0 (Inr [])))) 0 = Some Returned"
      by (simp add: t0 resume_def fetchJobs_settled_def index_def)
    then have "run ?c (Settled 0 (Inr []) # replicate ?m (Timeout 0)) = step ?c (Settled 0 (Inr []))"
      unfolding run_Cons by (rule run_idle_timeouts)
    with r True have e: "run (initial saved) (Mount # take n (session 0 (Inr [])))
        = step ?c (Settled 0 (Inr []))"
      by (simp del: step.simps)
    have tk: "tasks (step ?c (Settled 0 (Inr []))) = [Returned]"
      by (simp add: t0 resume_def fetchJobs_settled_def index_def)
    show ?thesis
      unfolding True e tk
      by (intro exI [of _ Returned]) (simp add: length_JOB_SOURCES)
  next
    case False
    have "tasks (run ?c (Settled 0 (Inr js) # replicate ?m (Timeout 0)))
        = [if ?m < 5 then AwaitTimeout js (int (?m * batch_size js)) (int (batch_size js)) ?m
           else Returned]"
      using reveal_prefix [OF t0(2) False, where n = ?m]
      by (simp add: t0 length_JOB_SOURCES)
    then show ?thesis
      unfolding r
      by (intro exI [of _ "if ?m < 5
            then AwaitTimeout js (int (?m * batch_size js)) (int (batch_size js)) ?m
            else Returned"])
        (auto simp add: Suc False length_JOB_SOURCES min_def)
  qed
qed

lemma interleaved_start:
  "interleaved js1 js2 (min (n - 1) 5)
     (handleSearch f (run (initial saved) (Mount # take n (session 0 (Inr js1)))))"
proof -
  let ?c = "run (initial saved) (Mount # take n (session 0 (Inr js1)))"
  define m where "m = min (n - 1) 5"
  from first_phase [of saved n js1]
  obtain t where t: "tasks ?c = [t]" "on_track js1 t" "m \<le> progress t"
    and e: "take ((progress t - m) * batch_size js1) (drop (m * batch_size js1) js1) = []"
    unfolding m_def by blast
  have "tasks (handleSearch f ?c) = [t, AwaitFindJobs]"
    "jobs (state (handleSearch f ?c)) = []"
    by (simp_all add: handleSearch_def fetchJobs_def fetchJobs_begin_def t(1))
  with t(2,3) have "interleaved js1 js2 m (handleSearch f ?c)"
    by (simp add: interleaved_def e)
  then show ?thesis unfolding m_def .
qed




section \<open>Saving and unsaving\<close>

text \<open>
  Claim C6. After \<open>handleSaveJob j\<close> the identifier of \<open>j\<close> is saved; saving a job whose
  identifier is already saved leaves the whole state, and so the length of the saved
  list, unchanged; saving twice is saving once; and unsaving an identifier that is not
  saved leaves the state unchanged. None of this needs the identifiers to be unique.
\<close>

theorem save_unsave_idempotent:
  "isJobSaved (handleSaveJob j s) (id' j)
   \<and> (isJobSaved s (id' j) \<longrightarrow>
        handleSaveJob j s = s \<and> length (savedJobs (handleSaveJob j s)) = length (savedJobs s))
   \<and> handleSaveJob j (handleSaveJob j s) = handleSaveJob j s
   \<and> (\<not> isJobSaved s i \<longrightarrow> handleUnsaveJob i s = s)"
  by (simp add: isJobSaved_def handleSaveJob_def handleUnsaveJob_def saveUpdater_member
      saveUpdater_saved unsaveUpdater_absent)

text \<open>The three cases on a saved list of two jobs.\<close>

theorem save_unsave_idempotent_witness:
  "isJobSaved (initial_app (sample_jobs 2)) (id' (sample_job ''a''))
   \<and> handleSaveJob (sample_job ''a'') (initial_app (sample_jobs 2)) = initial_app (sample_jobs 2)
   \<and> \<not> isJobSaved (initial_app (sample_jobs 2)) ''zz''
   \<and> handleUnsaveJob ''zz'' (initial_app (sample_jobs 2)) = initial_app (sample_jobs 2)"
proof -
  have a: "isJobSaved (initial_app (sample_jobs 2)) (id' (sample_job ''a''))"
    by (simp add: isJobSaved_def initial_app_def sample_jobs_def sample_job_def upt_rec)
  have b: "\<not> isJobSaved (initial_app (sample_jobs 2)) ''zz''"
    by (simp add: isJobSaved_def initial_app_def sample_jobs_def sample_job_def upt_rec)
  show ?thesis
    using a b save_unsave_idempotent [of "sample_job ''a''" "initial_app (sample_jobs 2)" "''zz''"]
    by simp
qed

text \<open>
  Claim C10. Saving a job whose identifier is not yet saved puts it at the end of the
  saved list and changes nothing else; unsaving an identifier leaves the list with
  exactly the entries of that identifier taken out, the others as they were and in
  their order, and changes nothing else.
\<close>

theorem save_appends_unsave_removes:
  "(\<not> isJobSaved s (id' j) \<longrightarrow> handleSaveJob j s = s\<lparr>savedJobs := savedJobs s @ [j]\<rparr>)
   \<and> handleUnsaveJob i s = s\<lparr>savedJobs := without_id i (savedJobs s)\<rparr>
   \<and> set (savedJobs (handleUnsaveJob i s)) = {k \<in> set (savedJobs s). id' k \<noteq> i}"
  by (auto simp add: isJobSaved_def handleSaveJob_def handleUnsaveJob_def saveUpdater_fresh
      unsaveUpdater_without_id[symmetric] unsaveUpdater_def)

text \<open>A fresh job goes last; unsaving the first of two jobs leaves the second.\<close>

theorem save_appends_unsave_removes_witness:
  "\<not> isJobSaved (initial_app (sample_jobs 2)) (id' (sample_job ''zz''))
   \<and> savedJobs (handleSaveJob (sample_job ''zz'') (initial_app (sample_jobs 2)))
       = [sample_job ''a'', sample_job ''aa'', sample_job ''zz'']
   \<and> savedJobs (handleUnsaveJob ''a'' (initial_app (sample_jobs 2))) = [sample_job ''aa'']"
proof -
  have b: "\<not> isJobSaved (initial_app (sample_jobs 2)) (id' (sample_job ''zz''))"
    by (simp add: isJobSaved_def initial_app_def sample_jobs_def sample_job_def upt_rec)
  have c: "savedJobs (initial_app (sample_jobs 2)) = [sample_job ''a'', sample_job ''aa'']"
    by (simp add: initial_app_def sample_jobs_def upt_rec)
  have d: "without_id ''a'' [sample_job ''a'', sample_job ''aa''] = [sample_job ''aa'']"
    by (simp add: sample_job_def)
  show ?thesis
    using b c d save_appends_unsave_removes [of "initial_app (sample_jobs 2)" "sample_job ''zz''" "''a''"]
    by simp
qed

section \<open>Loading the saved jobs\<close>




section \<open>The page window\<close>

text \<open>
  Claim C4. With nine jobs to a page, \<open>totalPages\<close> is the ceiling of the length over
  nine, and zero for an empty collection. For a current page between 1 and
  \<open>totalPages\<close> the jobs on the page are the elements at the positions from
  \<open>(page - 1) * 9\<close> up to \<open>page * 9\<close>, cut at the end of the collection: at least one
  and at most nine, each the element of the collection at its position.
\<close>

theorem pagination_window:
  "totalPages s = \<lceil>real (length (jobsToDisplay s)) / 9\<rceil>
   \<and> (length (jobsToDisplay s) = 0 \<longrightarrow> totalPages s = 0)
   \<and> (1 \<le> currentPage s \<and> currentPage s \<le> totalPages s \<longrightarrow>
        currentJobsOnPage s = take 9 (drop (nat ((currentPage s - 1) * 9)) (jobsToDisplay s))
        \<and> length (currentJobsOnPage s)
            = min 9 (length (jobsToDisplay s) - nat ((currentPage s - 1) * 9))
        \<and> 0 < length (currentJobsOnPage s)
        \<and> length (currentJobsOnPage s) \<le> 9
        \<and> (\<forall>k < length (currentJobsOnPage s).
              currentJobsOnPage s ! k = jobsToDisplay s ! (nat ((currentPage s - 1) * 9) + k)))"
proof -
  let ?xs = "jobsToDisplay s"
  let ?p = "currentPage s"
  have tp: "totalPages s = \<lceil>real (length ?xs) / 9\<rceil>"
    using ceil_quot_ceiling [of "int (length ?xs)" 9] by (simp add: totalPages_def JOBS_PER_PAGE_def)
  have z: "length ?xs = 0 \<longrightarrow> totalPages s = 0"
    by (simp add: totalPages_def ceil_quot_def)
  have w: "currentJobsOnPage s = take 9 (drop (nat ((?p - 1) * 9)) ?xs)
      \<and> length (currentJobsOnPage s) = min 9 (length ?xs - nat ((?p - 1) * 9))
      \<and> 0 < length (currentJobsOnPage s) \<and> length (currentJobsOnPage s) \<le> 9
      \<and> (\<forall>k < length (currentJobsOnPage s).
            currentJobsOnPage s ! k = ?xs ! (nat ((?p - 1) * 9) + k))"
    if r: "1 \<le> ?p" "?p \<le> totalPages s"
  proof -
    have e: "currentJobsOnPage s = take 9 (drop (nat ((?p - 1) * 9)) ?xs)"
      using r slice_nonneg [of "?p * 9 - 9" "?p * 9" ?xs]
      by (simp add: currentJobsOnPage_def indexOfFirstJob_def indexOfLastJob_def
          JOBS_PER_PAGE_def algebra_simps)
    have "9 * totalPages s < int (length ?xs) + 9"
      using ceil_quot_upper [of 9 "int (length ?xs)"] by (simp add: totalPages_def JOBS_PER_PAGE_def)
    with r have "(?p - 1) * 9 < int (length ?xs)" by simp
    with r have lt: "nat ((?p - 1) * 9) < length ?xs" by simp
    have l: "length (currentJobsOnPage s) = min 9 (length ?xs - nat ((?p - 1) * 9))"
      by (simp add: e min.commute)
    have n: "\<forall>k < length (currentJobsOnPage s).
            currentJobsOnPage s ! k = ?xs ! (nat ((?p - 1) * 9) + k)"
      using lt by (simp add: e)
    from e l lt n show ?thesis by simp
  qed
  from tp z w show ?thesis by blast
qed

text \<open>Ten jobs, page 2 of 2: the tenth job alone.\<close>

theorem pagination_window_witness:
  "1 \<le> currentPage ((initial_app [])\<lparr>jobs := sample_jobs 10, currentPage := 2\<rparr>)
   \<and> currentPage ((initial_app [])\<lparr>jobs := sample_jobs 10, currentPage := 2\<rparr>)
       \<le> totalPages ((initial_app [])\<lparr>jobs := sample_jobs 10, currentPage := 2\<rparr>)
   \<and> totalPages ((initial_app [])\<lparr>jobs := sample_jobs 10, currentPage := 2\<rparr>) = 2
   \<and> currentJobsOnPage ((initial_app [])\<lparr>jobs := sample_jobs 10, currentPage := 2\<rparr>)
       = [sample_job ''aaaaaaaaaa'']"
proof -
  let ?s = "(initial_app [])\<lparr>jobs := sample_jobs 10, currentPage := 2\<rparr>"
  have d: "jobsToDisplay ?s = sample_jobs 10"
    by (simp add: jobsToDisplay_def initial_app_def)
  have t: "totalPages ?s = 2"
    by (simp add: totalPages_def jobsToDisplay_def initial_app_def sample_jobs_def
        ceil_quot_def JOBS_PER_PAGE_def)
  have p: "currentPage ?s = 2" by simp
  have k: "take 9 (drop 9 (sample_jobs 10)) = [sample_job ''aaaaaaaaaa'']"
    by code_simp
  show ?thesis
    using pagination_window [of ?s] d t p k by simp
qed

text \<open>
  Claim C5 asks for a requested page outside \<open>1 .. totalPages\<close> to be clamped. With ten
  search results there are two pages, and a request for page 7 is stored as page 7.
  With ten saved jobs shown on page 2, unsaving one leaves one page and the current
  page at 2.
\<close>

theorem page_change_counterexample:
  "totalPages (handlePageChange 7 ((initial_app [])\<lparr>jobs := sample_jobs 10\<rparr>)) = 2
   \<and> currentPage (handlePageChange 7 ((initial_app [])\<lparr>jobs := sample_jobs 10\<rparr>)) = 7
   \<and> totalPages (handleUnsaveJob ''a''
        ((initial_app (sample_jobs 10))\<lparr>activeView := SavedView, currentPage := 2\<rparr>)) = 1
   \<and> currentPage (handleUnsaveJob ''a''
        ((initial_app (sample_jobs 10))\<lparr>activeView := SavedView, currentPage := 2\<rparr>)) = 2"
  by (simp add: handlePageChange_def handleUnsaveJob_def totalPages_def jobsToDisplay_def
      initial_app_def sample_jobs_def ceil_quot_def JOBS_PER_PAGE_def unsaveUpdater_def
      sample_job_def upt_rec)

text \<open>
  Claim C5, amended. \<open>handlePageChange\<close> stores the requested page as it is, changes
  nothing else and always returns; it does not clamp. The pages that the buttons of
  the \<open>Pagination\<close> component request, from a current page within \<open>1 .. totalPages\<close>,
  are themselves within \<open>1 .. totalPages\<close>.
\<close>

theorem page_change_stored:
  "handlePageChange page s = s\<lparr>currentPage := page\<rparr>
   \<and> currentPage (handlePageChange page s) = page
   \<and> (1 \<le> currentPage s \<and> currentPage s \<le> totalPages s
        \<and> Pagination (currentPage s) (totalPages s) c = Some page
      \<longrightarrow> 1 \<le> currentPage (handlePageChange page s)
          \<and> currentPage (handlePageChange page s) \<le> totalPages (handlePageChange page s))"
  by (cases c)
    (auto simp add: handlePageChange_def Pagination_def pageNumbers_def totalPages_def
      jobsToDisplay_def split: if_splits)

text \<open>Ten jobs on page 1: the next button asks for page 2 of 2.\<close>

theorem page_change_stored_witness:
  "1 \<le> currentPage ((initial_app [])\<lparr>jobs := sample_jobs 10\<rparr>)
   \<and> currentPage ((initial_app [])\<lparr>jobs := sample_jobs 10\<rparr>)
       \<le> totalPages ((initial_app [])\<lparr>jobs := sample_jobs 10\<rparr>)
   \<and> Pagination (currentPage ((initial_app [])\<lparr>jobs := sample_jobs 10\<rparr>))
        (totalPages ((initial_app [])\<lparr>jobs := sample_jobs 10\<rparr>)) Next = Some 2
   \<and> currentPage (handlePageChange 2 ((initial_app [])\<lparr>jobs := sample_jobs 10\<rparr>)) = 2"
proof -
  let ?s = "(initial_app [])\<lparr>jobs := sample_jobs 10\<rparr>"
  have t: "totalPages ?s = 2"
    by (simp add: totalPages_def jobsToDisplay_def initial_app_def sample_jobs_def
        ceil_quot_def JOBS_PER_PAGE_def)
  have p: "currentPage ?s = 1" by (simp add: initial_app_def)
  have n: "Pagination 1 2 Next = Some 2" by (simp add: Pagination_def)
  show ?thesis
    using page_change_stored [of 2 ?s Next] t p n by simp
qed

section \<open>The response of the service\<close>

text \<open>
  Claim C8 asks \<open>findJobs\<close> to turn a response that does not have the shape of a job
  list into an error. The text \<open>{}\<close> parses to an empty object, which is no job list,
  and \<open>findJobs\<close> returns it.
\<close>

theorem findJobs_unchecked_counterexample:
  "findJobs parse_empty_object (Inr (Some ''{}'')) = Inr (JObj [])
   \<and> \<not> conforms_job_list (JObj [])"
  by (simp add: findJobs_def findJobs_try_def parse_empty_object_def conforms_job_list_def)

text \<open>
  Claim C8, amended. \<open>findJobs\<close> ends in its one error when the call to the service
  throws, when the response has no text, or when the text does not parse; a text that
  parses comes back as the parsed value, whatever its shape.
\<close>

theorem findJobs_outcomes:
  "(\<forall>e. response = Inl e \<longrightarrow>
       findJobs parse response = Inl (Error ''Failed to fetch job listings from Gemini API.''))
   \<and> (response = Inr None \<longrightarrow>
       findJobs parse response = Inl (Error ''Failed to fetch job listings from Gemini API.''))
   \<and> (\<forall>str. response = Inr (Some str) \<and> parse str = None \<longrightarrow>
       findJobs parse response = Inl (Error ''Failed to fetch job listings from Gemini API.''))
   \<and> (\<forall>str v. response = Inr (Some str) \<and> parse str = Some v \<longrightarrow>
       findJobs parse response = Inr v)"
  by (auto simp add: findJobs_def findJobs_try_def)

text \<open>A failed call, a text that does not parse, and one that does.\<close>

theorem findJobs_outcomes_witness:
  "findJobs parse_empty_object (Inl NonError)
     = Inl (Error ''Failed to fetch job listings from Gemini API.'')
   \<and> parse_empty_object ''[1,'' = None
   \<and> findJobs parse_empty_object (Inr (Some ''[1,''))
     = Inl (Error ''Failed to fetch job listings from Gemini API.'')
   \<and> parse_empty_object ''{}'' = Some (JObj [])
   \<and> findJobs parse_empty_object (Inr (Some ''{}'')) = Inr (JObj [])"
proof -
  have b: "parse_empty_object ''[1,'' = None" by (simp add: parse_empty_object_def)
  have c: "parse_empty_object ''{}'' = Some (JObj [])" by (simp add: parse_empty_object_def)
  show ?thesis
    using b c findJobs_outcomes [of "Inl NonError" parse_empty_object]
      findJobs_outcomes [of "Inr (Some ''[1,'')" parse_empty_object]
      findJobs_outcomes [of "Inr (Some ''{}'')" parse_empty_object]
    by simp
qed

section \<open>One search run to its end\<close>

text \<open>
  Claim C2. Take a search whose \<open>findJobs\<close> gives a non-empty list of length \<open>L\<close>, run
  alone. After its first \<open>n\<close> timers, for every \<open>n\<close> up to five, the results hold the
  first \<open>n\<close> batches in order, and timer \<open>n\<close> appends batch \<open>n\<close> and nothing else:
  the run of \<open>ceil (L / 5)\<close> jobs from position \<open>n * ceil (L / 5)\<close>, cut at the end of
  the list, so a late batch may be short or empty. The first \<open>n\<close> sources are then
  completed, the next one is current, and the call waits for its next timer while
  there is one. There are exactly five batches; in order they make up the list, which
  is what the results hold in the end, with every source completed, in order, and
  none current.
\<close>

theorem reveal_batches_stepwise:
  assumes "js \<noteq> []" and "n \<le> 5"
  shows "jobs (state (run (fetchJobs c)
            (Settled (length (tasks c)) (Inr js) # replicate n (Timeout (length (tasks c))))))
           = concat (map (batch js) [0..<n])
   \<and> (n < 5 \<longrightarrow>
        jobs (state (run (fetchJobs c)
            (Settled (length (tasks c)) (Inr js) # replicate (Suc n) (Timeout (length (tasks c))))))
          = jobs (state (run (fetchJobs c)
              (Settled (length (tasks c)) (Inr js) # replicate n (Timeout (length (tasks c))))))
            @ batch js n)
   \<and> scrapingStatus (state (run (fetchJobs c)
            (Settled (length (tasks c)) (Inr js) # replicate n (Timeout (length (tasks c))))))
       = \<lparr>completed = take n JOB_SOURCES, current = index JOB_SOURCES n\<rparr>
   \<and> isLoading (state (run (fetchJobs c)
            (Settled (length (tasks c)) (Inr js) # replicate n (Timeout (length (tasks c))))))
       = (n < 5)
   \<and> index (tasks (run (fetchJobs c)
            (Settled (length (tasks c)) (Inr js) # replicate n (Timeout (length (tasks c))))))
          (length (tasks c))
       = Some (if n < 5 then AwaitTimeout js (int (n * batch_size js)) (int (batch_size js)) n
               else Returned)
   \<and> emitted (run (fetchJobs c) (session (length (tasks c)) (Inr js)))
       = emitted c @ map (\<lambda>n. (length (tasks c), batch js n)) [0..<5]
   \<and> int (batch_size js) = \<lceil>real (length js) / 5\<rceil>
   \<and> concat (map (batch js) [0..<5]) = js
   \<and> jobs (state (run (fetchJobs c) (session (length (tasks c)) (Inr js)))) = js
   \<and> scrapingStatus (state (run (fetchJobs c) (session (length (tasks c)) (Inr js))))
       = \<lparr>completed = JOB_SOURCES, current = None\<rparr>
   \<and> index (tasks (run (fetchJobs c) (session (length (tasks c)) (Inr js)))) (length (tasks c))
       = Some Returned
   \<and> isLoading (state (run (fetchJobs c) (session (length (tasks c)) (Inr js)))) = False"
proof -
  let ?k = "length (tasks c)"
  let ?at = "\<lambda>n. run (fetchJobs c) (Settled ?k (Inr js) # replicate n (Timeout ?k))"
  have all: "take (5 * batch_size js) js = js"
    using batch_size_covers [of js] by simp
  have cat: "concat (map (batch js) [0..<5]) = js"
    using concat_batches [of js 5] all by simp
  have n: "n \<le> length JOB_SOURCES" using assms(2) by (simp add: length_JOB_SOURCES)
  note p = reveal_prefix [OF fetchJobs_fields(2) assms(1), where c1 = c]
  have j: "jobs (state (?at n)) = concat (map (batch js) [0..<n])"
    using p [OF n] by (simp add: fetchJobs_fields concat_batches)
  have s: "n < 5 \<longrightarrow> jobs (state (?at (Suc n))) = jobs (state (?at n)) @ batch js n"
  proof
    assume "n < 5"
    then have "Suc n \<le> length JOB_SOURCES" by (simp add: length_JOB_SOURCES)
    from p [OF this] p [OF n] show "jobs (state (?at (Suc n))) = jobs (state (?at n)) @ batch js n"
      by (simp add: fetchJobs_fields take_next_batch del: mult_Suc replicate_Suc)
  qed
  have st: "scrapingStatus (state (?at n))
      = \<lparr>completed = take n JOB_SOURCES, current = index JOB_SOURCES n\<rparr>"
    using p [OF n] by (simp add: fetchJobs_fields)
  have l: "isLoading (state (?at n)) = (n < 5)"
    using p [OF n] by (simp add: fetchJobs_fields length_JOB_SOURCES)
  have t: "index (tasks (?at n)) ?k
      = Some (if n < 5 then AwaitTimeout js (int (n * batch_size js)) (int (batch_size js)) n
              else Returned)"
    using p [OF n] by (simp add: fetchJobs_fields length_JOB_SOURCES index_def)
  have fin: "emitted (run (fetchJobs c) (session ?k (Inr js)))
       = emitted c @ map (\<lambda>n. (?k, batch js n)) [0..<5]
   \<and> jobs (state (run (fetchJobs c) (session ?k (Inr js)))) = js
   \<and> scrapingStatus (state (run (fetchJobs c) (session ?k (Inr js))))
       = \<lparr>completed = JOB_SOURCES, current = None\<rparr>
   \<and> index (tasks (run (fetchJobs c) (session ?k (Inr js)))) ?k = Some Returned
   \<and> isLoading (state (run (fetchJobs c) (session ?k (Inr js)))) = False"
    using p [of 5] all
    by (simp add: session_def fetchJobs_fields length_JOB_SOURCES index_def)
  from j s st l t fin cat batch_size_ceiling [of js] show ?thesis by simp
qed

text \<open>Seven jobs: batches of two, two, two, one and none; four jobs after two timers.\<close>

theorem reveal_batches_stepwise_witness:
  "sample_jobs 7 \<noteq> []
   \<and> jobs (state (run (fetchJobs (initial []))
        (Settled 0 (Inr (sample_jobs 7)) # replicate 2 (Timeout 0)))) = take 4 (sample_jobs 7)
   \<and> jobs (state (run (fetchJobs (initial []))
        (Settled 0 (Inr (sample_jobs 7)) # replicate 3 (Timeout 0)))) = take 6 (sample_jobs 7)
   \<and> completed (scrapingStatus (state (run (fetchJobs (initial []))
        (Settled 0 (Inr (sample_jobs 7)) # replicate 2 (Timeout 0))))) = [''LinkedIn'', ''Indeed'']
   \<and> current (scrapingStatus (state (run (fetchJobs (initial []))
        (Settled 0 (Inr (sample_jobs 7)) # replicate 2 (Timeout 0))))) = Some ''Glassdoor''
   \<and> map snd (emitted (run (fetchJobs (initial [])) (session 0 (Inr (sample_jobs 7)))))
       = [take 2 (sample_jobs 7), take 2 (drop 2 (sample_jobs 7)),
          take 2 (drop 4 (sample_jobs 7)), drop 6 (sample_jobs 7), []]
   \<and> jobs (state (run (fetchJobs (initial [])) (session 0 (Inr (sample_jobs 7)))))
       = sample_jobs 7"
proof -
  have a: "sample_jobs 7 \<noteq> []" by (simp add: sample_jobs_def upt_rec)
  have l: "length (sample_jobs 7) = 7" by (simp add: sample_jobs_def)
  have b: "batch_size (sample_jobs 7) = 2"
    by (simp add: batch_size_def l JOB_SOURCES_def)
  have u: "[0..<5] = [0, 1, 2, 3, 4]" "[0..<2] = [0, 1]" by (simp_all add: upt_rec)
  have t: "tasks (initial []) = []" "emitted (initial []) = []" by (simp_all add: initial_def)
  have s: "take 2 JOB_SOURCES = [''LinkedIn'', ''Indeed'']"
    "index JOB_SOURCES 2 = Some ''Glassdoor''"
    by (simp_all add: JOB_SOURCES_def index_def)
  have w: "take 2 (sample_jobs 7) @ take 2 (drop 2 (sample_jobs 7)) = take 4 (sample_jobs 7)"
    "take 4 (sample_jobs 7) @ take 2 (drop 4 (sample_jobs 7)) = take 6 (sample_jobs 7)"
    using take_add [of 2 2 "sample_jobs 7"] take_add [of 4 2 "sample_jobs 7"] by simp_all
  show ?thesis
    using a reveal_batches_stepwise [of "sample_jobs 7" 2 "initial []"]
    by (simp add: t u batch_def b l s w del: replicate_Suc)
qed

text \<open>
  Claim C7. When \<open>findJobs\<close> gives the empty list, the call returns at once: every
  source is completed and none is current, no batch is appended, the results stay
  empty, and no timer is left to fire.
\<close>

theorem empty_result_terminal:
  "scrapingStatus (state (step (fetchJobs c) (Settled (length (tasks c)) (Inr []))))
     = \<lparr>completed = JOB_SOURCES, current = None\<rparr>
   \<and> index (tasks (step (fetchJobs c) (Settled (length (tasks c)) (Inr [])))) (length (tasks c))
       = Some Returned
   \<and> emitted (step (fetchJobs c) (Settled (length (tasks c)) (Inr []))) = emitted c
   \<and> jobs (state (step (fetchJobs c) (Settled (length (tasks c)) (Inr [])))) = []
   \<and> isLoading (state (step (fetchJobs c) (Settled (length (tasks c)) (Inr [])))) = False
   \<and> run (fetchJobs c) (session (length (tasks c)) (Inr []))
       = step (fetchJobs c) (Settled (length (tasks c)) (Inr []))"
proof -
  let ?c = "step (fetchJobs c) (Settled (length (tasks c)) (Inr []))"
  have f: "scrapingStatus (state ?c) = \<lparr>completed = JOB_SOURCES, current = None\<rparr>"
    "index (tasks ?c) (length (tasks c)) = Some Returned"
    "emitted ?c = emitted c" "jobs (state ?c) = []" "isLoading (state ?c) = False"
    by (simp_all add: fetchJobs_fields resume_def fetchJobs_settled_def index_def)
  have idle: "run d (replicate n (Timeout k)) = d" if "index (tasks d) k = Some Returned" for d n k
    using that by (induction n) (simp_all add: run_Nil run_Cons)
  have "run (fetchJobs c) (session (length (tasks c)) (Inr [])) = ?c"
    using idle [OF f(2)] by (simp add: session_def run_Cons)
  with f show ?thesis by simp
qed

section \<open>A failed search\<close>

text \<open>
  Claim C3 has the current source set to none when \<open>findJobs\<close> throws. After the
  mount effect and a failed \<open>findJobs\<close> the current source is still the first one.
\<close>

theorem fetch_failure_counterexample:
  "current (scrapingStatus (state (run (initial [])
      [Mount, Settled 0 (Inl (Error ''Failed to fetch job listings from Gemini API.''))])))
   = Some ''LinkedIn''"
  by (simp add: run_def initial_def initial_app_def fetchJobs_def fetchJobs_begin_def
      index_def resume_def fetchJobs_settled_def JOB_SOURCES_def)

text \<open>
  Claim C3, amended. When \<open>findJobs\<close> throws, the call stores a message (the one of the
  error, or a fixed one for a thrown value that is no error), empties the results,
  ends loading and returns without a batch. It leaves \<open>scrapingStatus\<close> alone: right
  after the start of the search that is no source completed and the first source
  current.
\<close>

theorem fetch_failure_state:
  "(index (tasks c) k = Some AwaitFindJobs \<longrightarrow>
      error (state (step c (Settled k (Inl err))))
        = Some (case err of Error message \<Rightarrow> message
                          | NonError \<Rightarrow> ''An unexpected error occurred.'')
      \<and> jobs (state (step c (Settled k (Inl err)))) = []
      \<and> isLoading (state (step c (Settled k (Inl err)))) = False
      \<and> scrapingStatus (state (step c (Settled k (Inl err)))) = scrapingStatus (state c)
      \<and> index (tasks (step c (Settled k (Inl err)))) k = Some Returned
      \<and> emitted (step c (Settled k (Inl err))) = emitted c)
   \<and> scrapingStatus (state (step (fetchJobs c) (Settled (length (tasks c)) (Inl err))))
       = \<lparr>completed = [], current = Some ''LinkedIn''\<rparr>"
  by (simp add: fetchJobs_fields resume_def fetchJobs_settled_def index_def)

text \<open>The first search of the component, failing with the error of \<open>findJobs\<close>.\<close>

theorem fetch_failure_state_witness:
  "index (tasks (fetchJobs (initial []))) 0 = Some AwaitFindJobs
   \<and> error (state (step (fetchJobs (initial []))
        (Settled 0 (Inl (Error ''Failed to fetch job listings from Gemini API.'')))))
       = Some ''Failed to fetch job listings from Gemini API.''
   \<and> jobs (state (step (fetchJobs (initial []))
        (Settled 0 (Inl (Error ''Failed to fetch job listings from Gemini API.''))))) = []
   \<and> scrapingStatus (state (step (fetchJobs (initial []))
        (Settled 0 (Inl (Error ''Failed to fetch job listings from Gemini API.'')))))
       = \<lparr>completed = [], current = Some ''LinkedIn''\<rparr>"
proof -
  have a: "index (tasks (fetchJobs (initial []))) 0 = Some AwaitFindJobs"
    by (simp add: fetchJobs_def initial_def index_def)
  have b: "scrapingStatus (state (fetchJobs (initial [])))
             = \<lparr>completed = [], current = Some ''LinkedIn''\<rparr>"
    by (simp add: fetchJobs_def fetchJobs_begin_def initial_def index_def JOB_SOURCES_def)
  show ?thesis
    using a b fetch_failure_state [of "fetchJobs (initial [])" 0
        "Error ''Failed to fetch job listings from Gemini API.''"]
    by simp
qed

section \<open>A second search during the first\<close>

text \<open>
  Claim C1 has the batches of a superseded search discarded. Here the first search
  has fetched two jobs and not yet appended any when a second search is submitted,
  which fetches one job. The timers of both then fire in turn. In the end the results
  hold the two jobs of the first search before the job of the second, and the
  completed sources are those of both calls.
\<close>

theorem supersede_counterexample:
  "jobs (state (run (initial [])
      [Mount, Settled 0 (Inr (sample_jobs 2)), Search initial_filters, Timeout 0,
       Settled 1 (Inr [sample_job ''b'']), Timeout 0, Timeout 1, Timeout 0, Timeout 1,
       Timeout 0, Timeout 1, Timeout 0, Timeout 1, Timeout 1]))
     = [sample_job ''a'', sample_job ''aa'', sample_job ''b'']
   \<and> completed (scrapingStatus (state (run (initial [])
      [Mount, Settled 0 (Inr (sample_jobs 2)), Search initial_filters, Timeout 0,
       Settled 1 (Inr [sample_job ''b'']), Timeout 0, Timeout 1, Timeout 0, Timeout 1,
       Timeout 0, Timeout 1, Timeout 0, Timeout 1, Timeout 1])))
     = [''LinkedIn'', ''Indeed'', ''LinkedIn'', ''Glassdoor'', ''Indeed'', ''Wellfound'',
        ''Glassdoor'', ''Google Careers'', ''Wellfound'', ''Google Careers'']
   \<and> sample_job ''a'' \<noteq> sample_job ''b''"
  by code_simp

text \<open>
  Claim C1, amended. \<open>fetchJobs\<close> has no check for a newer call. Take the first search
  of the component, let \<open>n\<close> of its events happen (its \<open>findJobs\<close> settling with \<open>js1\<close>,
  then its timers), then submit a second search, and let any events follow in which
  \<open>findJobs\<close> gives \<open>js1\<close> to the first call and \<open>js2\<close> to the second. Once both calls
  have returned, the results are an interleaving, each list in its order, of all of
  \<open>js2\<close> with the jobs of \<open>js1\<close> that the first call had not appended when the second
  search was submitted. (When the first call had returned by then, nothing of \<open>js1\<close> is
  left and the results are \<open>js2\<close>.)
\<close>

theorem superseded_batches_interleave:
  assumes "\<forall>e \<in> set es. (\<exists>k. e = Timeout k) \<or> e = Settled 0 (Inr js1) \<or> e = Settled 1 (Inr js2)"
    and "tasks (run (handleSearch f (run (initial saved) (Mount # take n (session 0 (Inr js1))))) es)
           = [Returned, Returned]"
  shows "jobs (state (run (handleSearch f
            (run (initial saved) (Mount # take n (session 0 (Inr js1))))) es))
         \<in> shuffles (drop ((n - 1) * batch_size js1) js1) js2"
proof -
  let ?m = "min (n - 1) 5"
  let ?c = "run (handleSearch f (run (initial saved) (Mount # take n (session 0 (Inr js1))))) es"
  have "interleaved js1 js2 ?m ?c"
    using assms(1) interleaved_start by (rule interleaved_run)
  with assms(2) have j: "jobs (state ?c)
      \<in> shuffles (take ((5 - ?m) * batch_size js1) (drop (?m * batch_size js1) js1))
          (take (5 * batch_size js2) js2)"
    by (simp add: interleaved_def length_JOB_SOURCES)
  have a: "take (5 * batch_size js2) js2 = js2"
    using batch_size_covers [of js2] by simp
  have "length js1 - ?m * batch_size js1 \<le> (5 - ?m) * batch_size js1"
    using batch_size_covers [of js1] by (simp add: diff_mult_distrib)
  then have b: "take ((5 - ?m) * batch_size js1) (drop (?m * batch_size js1) js1)
      = drop (?m * batch_size js1) js1"
    by simp
  have c: "drop (?m * batch_size js1) js1 = drop ((n - 1) * batch_size js1) js1"
  proof (cases "n - 1 \<le> 5")
    case True
    then show ?thesis by (simp add: min_def)
  next
    case False
    then have "5 * batch_size js1 \<le> (n - 1) * batch_size js1" by simp
    with batch_size_covers [of js1] have "length js1 \<le> (n - 1) * batch_size js1"
      by (rule order_trans)
    with False batch_size_covers [of js1] show ?thesis by (simp add: min_def)
  qed
  from j have "jobs (state ?c) \<in> shuffles (drop (?m * batch_size js1) js1) js2"
    by (simp only: a b)
  then show ?thesis by (simp only: c)
qed

text \<open>The run of the counterexample: a job of the second search among two of the first.\<close>

theorem superseded_batches_interleave_witness:
  "tasks (run (handleSearch initial_filters
       (run (initial []) (Mount # take 1 (session 0 (Inr (sample_jobs 2))))))
     [Timeout 0, Settled 1 (Inr [sample_job ''b'']), Timeout 0, Timeout 1, Timeout 0,
      Timeout 1, Timeout 0, Timeout 1, Timeout 0, Timeout 1, Timeout 1])
     = [Returned, Returned]
   \<and> jobs (state (run (handleSearch initial_filters
       (run (initial []) (Mount # take 1 (session 0 (Inr (sample_jobs 2))))))
     [Timeout 0, Settled 1 (Inr [sample_job ''b'']), Timeout 0, Timeout 1, Timeout 0,
      Timeout 1, Timeout 0, Timeout 1, Timeout 0, Timeout 1, Timeout 1]))
     \<in> shuffles (sample_jobs 2) [sample_job ''b'']"
proof -
  let ?es = "[Timeout 0, Settled 1 (Inr [sample_job ''b'']), Timeout 0, Timeout 1, Timeout 0,
      Timeout 1, Timeout 0, Timeout 1, Timeout 0, Timeout 1, Timeout 1]"
  have a: "\<forall>e \<in> set ?es. (\<exists>k. e = Timeout k) \<or> e = Settled 0 (Inr (sample_jobs 2))
      \<or> e = Settled 1 (Inr [sample_job ''b''])"
    by simp
  have b: "tasks (run (handleSearch initial_filters
       (run (initial []) (Mount # take 1 (session 0 (Inr (sample_jobs 2)))))) ?es)
     = [Returned, Returned]"
    by code_simp
  show ?thesis
    using superseded_batches_interleave [OF a b] b by simp
qed

end
